theory Spec2Isabelle
  imports Main "HOL-Library.AList"
begin

section \<open>Template helpers of aiohttp-jinja2: \<open>url_for\<close> and \<open>static_url\<close>\<close>

text \<open>
  The module \<^verbatim>\<open>aiohttp_jinja2/helpers.py\<close> holds two functions that a Jinja template calls:
  \<^verbatim>\<open>url_for\<close> turns a route name, keyword arguments and an optional query mapping into a URL
  by asking the application's router, and \<^verbatim>\<open>static_url\<close> joins the configured static root
  with an asset path. Both read the application from the template context.

  The embedding keeps the order of the source: every subscript that can raise
  \<^verbatim>\<open>KeyError\<close>, every \<^verbatim>\<open>raise\<close> and the call of \<^verbatim>\<open>warnings.warn\<close> is a branch of
  the model, and so is every exception of the builtin \<^verbatim>\<open>str\<close>. The router and the URL type
  belong to aiohttp and yarl; they are parameters.
\<close>

subsection \<open>Python values that reach the keyword arguments\<close>

text \<open>
  An instance of \<^verbatim>\<open>str\<close>, as \<^verbatim>\<open>str(val)\<close> returns it and as the parameter map holds it:
  \<open>Plain s\<close> is an object whose type is exactly \<^verbatim>\<open>str\<close>, \<open>Derived c s\<close> an instance with
  contents \<open>s\<close> of a class \<open>c\<close> properly derived from \<^verbatim>\<open>str\<close>. Python compares two such
  objects by their contents.
\<close>

datatype strval = Plain string | Derived string string

fun is_plain :: "strval \<Rightarrow> bool" where
  "is_plain (Plain s) = True"
| "is_plain (Derived c s) = False"

fun contents :: "strval \<Rightarrow> string" where
  "contents (Plain s) = s"
| "contents (Derived c s) = s"

text \<open>An exception raised by code outside the helpers (the router, a method of a
  keyword argument): the name of its class and its message.\<close>

datatype exn = Exn string string

text \<open>
  What \<^verbatim>\<open>__str__\<close> does for an instance of a class derived from \<^verbatim>\<open>str\<close>: the class
  inherits \<^verbatim>\<open>str.__str__\<close>, which returns a plain copy of the contents (as
  \<^verbatim>\<open>markupsafe.Markup\<close> does), or it defines its own, which returns some instance of
  \<^verbatim>\<open>str\<close> or raises. (A \<^verbatim>\<open>__str__\<close> that returns something else makes \<^verbatim>\<open>str()\<close> raise
  \<^verbatim>\<open>TypeError\<close>; that is \<open>Raises (Exn ''TypeError'' _)\<close>.)
\<close>

datatype str_method = Inherited | Returns strval | Raises exn

text \<open>
  A keyword argument of \<^verbatim>\<open>url_for\<close> is any Python object. The model tells apart the classes
  the two tests of the loop can tell apart: \<^verbatim>\<open>isinstance(val, str)\<close> and
  \<^verbatim>\<open>type(val) is int\<close>.
  \<^item> \<open>PStr s\<close>: an object whose type is exactly \<^verbatim>\<open>str\<close>;
  \<^item> \<open>PStrSub c s m\<close>: an instance with contents \<open>s\<close> of a class \<open>c\<close> properly derived
    from \<^verbatim>\<open>str\<close>, whose \<^verbatim>\<open>__str__\<close> behaves as \<open>m\<close> says;
  \<^item> \<open>PInt i\<close>: an object whose type is exactly \<^verbatim>\<open>int\<close> (unbounded);
  \<^item> \<open>PBool b\<close>: \<^verbatim>\<open>True\<close> or \<^verbatim>\<open>False\<close>; \<^verbatim>\<open>bool\<close> is a subclass of \<^verbatim>\<open>int\<close>;
  \<^item> \<open>PIntSub c i\<close>: an instance of another class \<open>c\<close> derived from \<^verbatim>\<open>int\<close>;
  \<^item> \<open>PNone\<close>: \<^verbatim>\<open>None\<close>;
  \<^item> \<open>PObject c t\<close>: an instance of any other class \<open>c\<close>, with \<^verbatim>\<open>repr\<close> \<open>t\<close>.
\<close>

datatype pyval =
    PStr string
  | PStrSub string string str_method
  | PInt int
  | PBool bool
  | PIntSub string int
  | PNone
  | PObject string string

text \<open>\<^verbatim>\<open>isinstance(val, str)\<close>: true for \<^verbatim>\<open>str\<close> and for every class derived from it.\<close>

fun isinstance_str :: "pyval \<Rightarrow> bool" where
  "isinstance_str (PStr s) = True"
| "isinstance_str (PStrSub c s m) = True"
| "isinstance_str v = False"


text \<open>\<^verbatim>\<open>type(val) is int\<close>: true for the class \<^verbatim>\<open>int\<close> itself only.\<close>

fun type_is_int :: "pyval \<Rightarrow> bool" where
  "type_is_int (PInt i) = True"
| "type_is_int v = False"

text \<open>Decimal digits of a natural number, most significant first, as \<^verbatim>\<open>str\<close> prints them.\<close>

fun digits :: "nat \<Rightarrow> string" where
  "digits n =
     (if n < 10 then [char_of (48 + n)]
      else digits (n div 10) @ [char_of (48 + n mod 10)])"

declare digits.simps [simp del]

definition str_int :: "int \<Rightarrow> string" where
  "str_int i = (if i < 0 then CHR ''-'' # digits (nat (- i)) else digits (nat i))"

subsection \<open>Dictionaries, errors, warnings\<close>

text \<open>
  A \<^verbatim>\<open>dict\<close> is an association list in insertion order. Reading \<^verbatim>\<open>d[k]\<close> is
  \<open>map_of d k\<close>, with \<open>None\<close> for \<^verbatim>\<open>KeyError\<close>; writing \<^verbatim>\<open>d[k] = v\<close> is
  \<open>AList.update k v d\<close>, which overwrites in place or appends, as Python does.
\<close>

type_synonym ('k, 'v) dict = "('k \<times> 'v) list"

text \<open>
  What a call of a helper can raise. \<open>TypeError key val\<close> is the \<^verbatim>\<open>raise TypeError\<close> of the
  loop: its message is formatted from the key, from \<^verbatim>\<open>type(val)\<close> and from
  \<^verbatim>\<open>repr(val)\<close>, and the model keeps the key and the value instead of the text.
  \<open>ValueError\<close> is what the builtin \<^verbatim>\<open>str\<close> raises for an \<^verbatim>\<open>int\<close> with too many digits.
  \<open>Propagated x\<close> is an exception \<open>x\<close> raised by code outside the helpers and passed on
  unchanged; its class may be any, \<^verbatim>\<open>TypeError\<close> included.
\<close>

datatype error =
    KeyError string
  | TypeError string pyval
  | ValueError string
  | RuntimeError string
  | Propagated exn


datatype warning = DeprecationWarning string

subsection \<open>The builtin \<open>str\<close>\<close>

text \<open>
  CPython refuses to convert an \<^verbatim>\<open>int\<close> of more than \<^verbatim>\<open>sys.get_int_max_str_digits()\<close>
  decimal digits and raises \<^verbatim>\<open>ValueError\<close>. The model takes the default limit.
\<close>

definition int_max_str_digits :: nat where
  "int_max_str_digits = 4300"

definition digits_limit_msg :: string where
  "digits_limit_msg =
     ''Exceeds the limit (4300 digits) for integer string conversion; '' @
     ''use sys.set_int_max_str_digits() to increase the limit''"

definition int_str :: "int \<Rightarrow> error + strval" where
  "int_str i =
     (if int_max_str_digits < length (digits (nat \<bar>i\<bar>)) then Inl (ValueError digits_limit_msg)
      else Inr (Plain (str_int i)))"

text \<open>
  \<^verbatim>\<open>str(val)\<close> calls \<^verbatim>\<open>type(val).__str__(val)\<close>. For an exact \<^verbatim>\<open>str\<close> it returns the object
  itself; for a class derived from \<^verbatim>\<open>str\<close> it returns what the class's \<^verbatim>\<open>__str__\<close>
  returns, or raises what that raises; for an \<^verbatim>\<open>int\<close> it returns the decimal digits
  unless there are too many. The loop of \<^verbatim>\<open>url_for\<close> calls it on these values only; the
  other equations say what \<^verbatim>\<open>str\<close> gives for objects of classes that keep the \<^verbatim>\<open>__str__\<close>
  of \<^verbatim>\<open>bool\<close>, \<^verbatim>\<open>int\<close>, \<^verbatim>\<open>NoneType\<close> and \<^verbatim>\<open>object\<close> (whose \<^verbatim>\<open>__str__\<close> is \<^verbatim>\<open>repr\<close>).
\<close>

fun py_str :: "pyval \<Rightarrow> error + strval" where
  "py_str (PStr s) = Inr (Plain s)"
| "py_str (PStrSub c s Inherited) = Inr (Plain s)"
| "py_str (PStrSub c s (Returns r)) = Inr r"
| "py_str (PStrSub c s (Raises x)) = Inl (Propagated x)"
| "py_str (PInt i) = int_str i"
| "py_str (PBool b) = Inr (Plain (if b then ''True'' else ''False''))"
| "py_str (PIntSub c i) = int_str i"
| "py_str PNone = Inr (Plain ''None'')"
| "py_str (PObject c t) = Inr (Plain t)"

subsection \<open>Application, context and the state a call can touch\<close>

text \<open>
  An application key is either an \<^verbatim>\<open>AppKey\<close> object or a plain string; the two never
  compare equal. \<^verbatim>\<open>static_root_key = web.AppKey("static_root_key", str)\<close>.
\<close>

datatype app_key = AppKey string | StrKey string

definition static_root_key :: app_key where
  "static_root_key = AppKey ''static_root_key''"

text \<open>
  \<^verbatim>\<open>app.router[name]\<close> is a lookup that may fail; the resource found has a method
  \<^verbatim>\<open>url_for(**parts)\<close> that returns a URL or raises. The configuration entries are
  strings, as the \<^verbatim>\<open>AppKey\<close> declares.
\<close>

type_synonym 'u resource = "(string, strval) dict \<Rightarrow> exn + 'u"

record 'u application =
  router :: "string \<Rightarrow> 'u resource option"
  config :: "(app_key, string) dict"

text \<open>\<^verbatim>\<open>class _Context(TypedDict, total=False): app: web.Application\<close>: the key may be
  absent.\<close>

record 'u Context =
  app :: "'u application option"

text \<open>The state a call can read or write: the context with its application, and the
  warnings issued so far through \<^verbatim>\<open>warnings.warn\<close>. A call of \<^verbatim>\<open>warnings.warn\<close> adds
  its warning to that list and returns; the interpreter's warning filters, which decide
  whether a warning is shown, are not part of the model.\<close>

record 'u world =
  ctx :: "'u Context"
  warnings :: "warning list"

subsection \<open>\<open>url_for\<close>\<close>

text \<open>
  The loop \<^verbatim>\<open>for key in parts: val = parts[key] ...\<close> over the keys still to visit, with
  \<^verbatim>\<open>parts_clean\<close> as the accumulator. An exception of \<^verbatim>\<open>str(val)\<close> ends the loop, as
  the \<^verbatim>\<open>raise\<close> does.
\<close>

fun parts_clean_loop ::
  "(string, pyval) dict \<Rightarrow> string list \<Rightarrow> (string, strval) dict \<Rightarrow> error + (string, strval) dict"
where
  "parts_clean_loop parts [] parts_clean = Inr parts_clean"
| "parts_clean_loop parts (key # keys) parts_clean =
     (case map_of parts key of
        None \<Rightarrow> Inl (KeyError key)
      | Some val \<Rightarrow>
          if isinstance_str val then
            (case py_str val of
               Inl e \<Rightarrow> Inl e
             | Inr s \<Rightarrow> parts_clean_loop parts keys (AList.update key s parts_clean))
          else if type_is_int val then
            (case py_str val of
               Inl e \<Rightarrow> Inl e
             | Inr s \<Rightarrow> parts_clean_loop parts keys (AList.update key s parts_clean))
          else Inl (TypeError key val))"

text \<open>\<^verbatim>\<open>app.router[__route_name].url_for(**parts_clean)\<close>.\<close>

definition resolve :: "'u application \<Rightarrow> string \<Rightarrow> (string, strval) dict \<Rightarrow> error + 'u" where
  "resolve a route_name parts_clean =
     (case router a route_name of
        None \<Rightarrow> Inl (KeyError route_name)
      | Some resource \<Rightarrow>
          (case resource parts_clean of
             Inl x \<Rightarrow> Inl (Propagated x)
           | Inr url \<Rightarrow> Inr url))"

text \<open>\<^verbatim>\<open>if query_: url = url.with_query(query_)\<close>: \<^verbatim>\<open>None\<close> and the empty mapping are
  both false (\<open>query\<close> is the argument \<^verbatim>\<open>query_\<close>). \<open>with_query\<close> is yarl's method.\<close>

definition attach_query ::
  "('u \<Rightarrow> (string, string) dict \<Rightarrow> 'u) \<Rightarrow> (string, string) dict option \<Rightarrow> 'u \<Rightarrow> 'u"
where
  "attach_query with_query query url =
     (case query of
        None \<Rightarrow> url
      | Some q \<Rightarrow> if q \<noteq> [] then with_query url q else url)"

definition url_for ::
  "('u \<Rightarrow> (string, string) dict \<Rightarrow> 'u) \<Rightarrow> 'u world \<Rightarrow> string \<Rightarrow>
   (string, string) dict option \<Rightarrow> (string, pyval) dict \<Rightarrow> (error + 'u) \<times> 'u world"
where
  "url_for with_query w route_name query parts =
     (case app (ctx w) of
        None \<Rightarrow> (Inl (KeyError ''app''), w)
      | Some a \<Rightarrow>
          (case parts_clean_loop parts (map fst parts) [] of
             Inl e \<Rightarrow> (Inl e, w)
           | Inr parts_clean \<Rightarrow>
               (case resolve a route_name parts_clean of
                  Inl e \<Rightarrow> (Inl e, w)
                | Inr url \<Rightarrow> (Inr (attach_query with_query query url), w))))"

subsection \<open>\<open>static_url\<close>\<close>

text \<open>\<^verbatim>\<open>s.rstrip(chars)\<close> and \<^verbatim>\<open>s.lstrip(chars)\<close> remove every trailing (leading) character
  that occurs in \<open>chars\<close>.\<close>

definition py_rstrip :: "string \<Rightarrow> string \<Rightarrow> string" where
  "py_rstrip s chars = rev (dropWhile (\<lambda>c. c \<in> set chars) (rev s))"

definition py_lstrip :: "string \<Rightarrow> string \<Rightarrow> string" where
  "py_lstrip s chars = dropWhile (\<lambda>c. c \<in> set chars) s"

text \<open>\<^verbatim>\<open>"{}/{}".format(static_url.rstrip("/"), static_file_path.lstrip("/"))\<close>.\<close>

definition join_static :: "string \<Rightarrow> string \<Rightarrow> string" where
  "join_static root static_file_path =
     py_rstrip root ''/'' @ ''/'' @ py_lstrip static_file_path ''/''"

definition no_static_root_msg :: string where
  "no_static_root_msg =
     ''app does not define a static root url, you need to set the url root '' @
     ''with app[aiohttp_jinja2.static_root_key] = '<static root>'.''"

definition deprecated_msg :: string where
  "deprecated_msg = '''static_root_url' is deprecated, use aiohttp_jinja2.static_root_key.''"

definition static_url :: "'u world \<Rightarrow> string \<Rightarrow> (error + string) \<times> 'u world" where
  "static_url w static_file_path =
     (case app (ctx w) of
        None \<Rightarrow> (Inl (KeyError ''app''), w)
      | Some a \<Rightarrow>
          (case map_of (config a) static_root_key of
             Some root \<Rightarrow> (Inr (join_static root static_file_path), w)
           | None \<Rightarrow>
               (case map_of (config a) (StrKey ''static_root_url'') of
                  None \<Rightarrow> (Inl (RuntimeError no_static_root_msg), w)
                | Some root \<Rightarrow>
                    (Inr (join_static root static_file_path),
                     w\<lparr>warnings := warnings w @ [DeprecationWarning deprecated_msg]\<rparr>))))"

subsection \<open>Predicates used in the statements\<close>

text \<open>One turn of the loop for a key and its value: the string to store, or the exception.\<close>

definition convert :: "string \<Rightarrow> pyval \<Rightarrow> error + strval" where
  "convert key val =
     (if isinstance_str val then py_str val
      else if type_is_int val then py_str val
      else Inl (TypeError key val))"

text \<open>A keyword on which the loop goes on.\<close>

definition good_key :: "(string, pyval) dict \<Rightarrow> string \<Rightarrow> bool" where
  "good_key parts k =
     (case map_of parts k of
        None \<Rightarrow> False
      | Some v \<Rightarrow> (case convert k v of Inl e \<Rightarrow> False | Inr s \<Rightarrow> True))"

text \<open>\<^verbatim>\<open>str(val)\<close> returns.\<close>

definition str_returns :: "pyval \<Rightarrow> bool" where
  "str_returns v = (case py_str v of Inl e \<Rightarrow> False | Inr s \<Rightarrow> True)"

text \<open>The branch of \<^verbatim>\<open>static_url\<close> that reaches \<^verbatim>\<open>warnings.warn\<close>: an application
  without the \<^verbatim>\<open>static_root_key\<close> entry and with the entry \<^verbatim>\<open>'static_root_url'\<close>.\<close>

definition legacy_path :: "'u world \<Rightarrow> bool" where
  "legacy_path w =
     (case app (ctx w) of
        None \<Rightarrow> False
      | Some a \<Rightarrow>
          (case map_of (config a) static_root_key of
             Some root \<Rightarrow> False
           | None \<Rightarrow>
               (case map_of (config a) (StrKey ''static_root_url'') of
                  None \<Rightarrow> False
                | Some root \<Rightarrow> True)))"

subsection \<open>Sample data\<close>

text \<open>A router with a dynamic route \<^verbatim>\<open>/items/{id}\<close> named \<^verbatim>\<open>item\<close> and a plain route
  \<^verbatim>\<open>/\<close> named \<^verbatim>\<open>index\<close>, whose \<^verbatim>\<open>url_for()\<close> takes no keyword, as that of aiohttp's
  \<^verbatim>\<open>PlainResource\<close>; URLs as strings, and a \<open>with_query\<close> that writes the pairs after a
  question mark.\<close>

definition item_resource :: "string resource" where
  "item_resource ps =
     (case map_of ps ''id'' of
        None \<Rightarrow> Inl (Exn ''KeyError'' ''id'')
      | Some i \<Rightarrow> Inr (''/items/'' @ contents i))"

definition plain_resource :: "string resource" where
  "plain_resource ps =
     (if ps = [] then Inr ''/''
      else Inl (Exn ''TypeError'' ''url_for() got an unexpected keyword argument''))"

definition sample_router :: "string \<Rightarrow> string resource option" where
  "sample_router n =
     (if n = ''item'' then Some item_resource
      else if n = ''index'' then Some plain_resource
      else None)"

fun render_query :: "(string, string) dict \<Rightarrow> string" where
  "render_query [] = []"
| "render_query [(k, v)] = k @ ''='' @ v"
| "render_query ((k, v) # kvs) = k @ ''='' @ v @ ''&'' @ render_query kvs"

definition sample_with_query :: "string \<Rightarrow> (string, string) dict \<Rightarrow> string" where
  "sample_with_query u q = u @ ''?'' @ render_query q"

definition sample_app :: "(app_key, string) dict \<Rightarrow> string application" where
  "sample_app cfg = \<lparr>router = sample_router, config = cfg\<rparr>"

definition sample_world :: "(app_key, string) dict \<Rightarrow> string world" where
  "sample_world cfg = \<lparr>ctx = \<lparr>app = Some (sample_app cfg)\<rparr>, warnings = []\<rparr>"


definition sample_parts :: "(string, pyval) dict" where
  "sample_parts = [(''id'', PInt 123), (''slug'', PStrSub ''Markup'' ''ab'' Inherited)]"

section \<open>Properties of \<open>static_url\<close>\<close>

subsection \<open>Stripping slashes\<close>

text \<open>Stripping one character \<open>c\<close> removes a block of \<open>c\<close>s at one end of the string and
  leaves a string that does not have \<open>c\<close> at that end.\<close>

lemma all_same_replicate: "\<forall>x \<in> set xs. x = c \<Longrightarrow> \<exists>n. xs = replicate n c"
  by (metis replicate_length_same)

lemma takeWhile_only: "\<forall>x \<in> set (takeWhile (\<lambda>x. x \<in> set [c]) xs). x = c"
proof
  fix x assume "x \<in> set (takeWhile (\<lambda>x. x \<in> set [c]) xs)"
  then have "x \<in> set [c]" by (rule set_takeWhileD [THEN conjunct2])
  then show "x = c" by simp
qed

lemma py_lstrip_decomp:
  "\<exists>n. s = replicate n c @ py_lstrip s [c]"
proof -
  obtain n where tn: "takeWhile (\<lambda>x. x \<in> set [c]) s = replicate n c"
    using all_same_replicate [OF takeWhile_only] ..
  have "s = takeWhile (\<lambda>x. x \<in> set [c]) s @ dropWhile (\<lambda>x. x \<in> set [c]) s"
    by (simp only: takeWhile_dropWhile_id)
  then have "s = replicate n c @ py_lstrip s [c]"
    by (simp only: tn py_lstrip_def)
  then show ?thesis ..
qed

lemma py_rstrip_decomp:
  "\<exists>n. s = py_rstrip s [c] @ replicate n c"
proof -
  obtain n where tn: "takeWhile (\<lambda>x. x \<in> set [c]) (rev s) = replicate n c"
    using all_same_replicate [OF takeWhile_only] ..
  have "rev (takeWhile (\<lambda>x. x \<in> set [c]) (rev s) @ dropWhile (\<lambda>x. x \<in> set [c]) (rev s))
          = rev (rev s)"
    by (simp only: takeWhile_dropWhile_id)
  then have "py_rstrip s [c] @ rev (replicate n c) = s"
    by (simp only: rev_append rev_rev_ident tn py_rstrip_def)
  then have "s = py_rstrip s [c] @ replicate n c"
    by (simp only: rev_replicate)
  then show ?thesis ..
qed

lemma py_lstrip_hd: "py_lstrip s [c] \<noteq> [] \<Longrightarrow> hd (py_lstrip s [c]) \<noteq> c"
  unfolding py_lstrip_def
  using hd_dropWhile [of "\<lambda>x. x \<in> set [c]" s] by simp

lemma py_rstrip_last: "py_rstrip s [c] \<noteq> [] \<Longrightarrow> last (py_rstrip s [c]) \<noteq> c"
  unfolding py_rstrip_def
  using hd_dropWhile [of "\<lambda>x. x \<in> set [c]" "rev s"] by (simp add: last_rev)

subsection \<open>The three branches\<close>

lemma static_url_configured:
  assumes "app (ctx w) = Some a"
    and "map_of (config a) static_root_key = Some root"
  shows "static_url w static_file_path = (Inr (join_static root static_file_path), w)"
  using assms by (simp add: static_url_def)

lemma static_url_fallback:
  assumes "app (ctx w) = Some a"
    and "map_of (config a) static_root_key = None"
    and "map_of (config a) (StrKey ''static_root_url'') = Some root"
  shows "static_url w static_file_path =
          (Inr (join_static root static_file_path),
           w\<lparr>warnings := warnings w @ [DeprecationWarning deprecated_msg]\<rparr>)"
  using assms by (simp add: static_url_def)

lemma static_url_ctx: "ctx (snd (static_url w p)) = ctx w"
  by (simp add: static_url_def split: option.splits)

lemma static_url_warnings:
  "warnings (snd (static_url w p)) =
     warnings w @ (if legacy_path w then [DeprecationWarning deprecated_msg] else [])"
  by (simp add: static_url_def legacy_path_def split: option.splits)

lemma static_url_reads_ctx: "ctx w' = ctx w \<Longrightarrow> fst (static_url w' p) = fst (static_url w p)"
  by (simp add: static_url_def split: option.splits)

lemma sample_world_app: "app (ctx (sample_world cfg)) = Some (sample_app cfg)"
  by (simp add: sample_world_def)

text \<open>
  \<^bold>\<open>Claim C5.\<close> For every configured static root and every asset path, the string that
  \<^verbatim>\<open>static_url\<close> returns has exactly one \<^verbatim>\<open>/\<close> where root and path are joined, however many
  slashes the root ends with and the path starts with: the result is \<open>r @ ''/'' @ p\<close>, where
  \<open>r\<close> is the root without its \<open>n\<close> trailing slashes and \<open>p\<close> the path without its \<open>m\<close>
  leading slashes, \<open>r\<close> does not end with a slash and \<open>p\<close> does not start with one. The root
  is the \<^verbatim>\<open>static_root_key\<close> entry or, without it, the \<^verbatim>\<open>'static_root_url'\<close> entry.
\<close>

theorem static_url_single_slash:
  assumes "app (ctx w) = Some a"
    and "map_of (config a) static_root_key = Some root
         \<or> (map_of (config a) static_root_key = None
            \<and> map_of (config a) (StrKey ''static_root_url'') = Some root)"
  shows "\<exists>r p n m.
           fst (static_url w static_file_path) = Inr (r @ ''/'' @ p)
         \<and> root = r @ replicate n CHR ''/''
         \<and> static_file_path = replicate m CHR ''/'' @ p
         \<and> (r = [] \<or> last r \<noteq> CHR ''/'')
         \<and> (p = [] \<or> hd p \<noteq> CHR ''/'')"
proof -
  let ?r = "py_rstrip root ''/''" and ?p = "py_lstrip static_file_path ''/''"
  from assms(2) have "fst (static_url w static_file_path) = Inr (join_static root static_file_path)"
  proof
    assume "map_of (config a) static_root_key = Some root"
    from static_url_configured [OF assms(1) this] show ?thesis by simp
  next
    assume "map_of (config a) static_root_key = None
            \<and> map_of (config a) (StrKey ''static_root_url'') = Some root"
    then show ?thesis using static_url_fallback [OF assms(1)] by simp
  qed
  then have res: "fst (static_url w static_file_path) = Inr (?r @ ''/'' @ ?p)"
    by (simp only: join_static_def)
  from py_rstrip_decomp [of root "CHR ''/''"]
  obtain n where n: "root = ?r @ replicate n CHR ''/''" ..
  from py_lstrip_decomp [of static_file_path "CHR ''/''"]
  obtain m where m: "static_file_path = replicate m CHR ''/'' @ ?p" ..
  have r: "?r = [] \<or> last ?r \<noteq> CHR ''/''"
    using py_rstrip_last [of root "CHR ''/''"] by fast
  have p: "?p = [] \<or> hd ?p \<noteq> CHR ''/''"
    using py_lstrip_hd [of static_file_path "CHR ''/''"] by fast
  show ?thesis
    apply (rule exI [of _ ?r], rule exI [of _ ?p], rule exI [of _ n], rule exI [of _ m])
    apply (intro conjI)
        apply (rule res)
       apply (rule n)
      apply (rule m)
     apply (rule r)
    apply (rule p)
    done
qed

theorem static_url_single_slash_witness:
  "app (ctx (sample_world [(static_root_key, ''/static//'')])) = Some (sample_app [(static_root_key, ''/static//'')])
   \<and> (map_of (config (sample_app [(static_root_key, ''/static//'')])) static_root_key = Some ''/static//''
       \<or> (map_of (config (sample_app [(static_root_key, ''/static//'')])) static_root_key = None
          \<and> map_of (config (sample_app [(static_root_key, ''/static//'')])) (StrKey ''static_root_url'')
              = Some ''/static//''))
   \<and> (\<exists>r p n m.
           fst (static_url (sample_world [(static_root_key, ''/static//'')]) ''///css/site.css'') = Inr (r @ ''/'' @ p)
         \<and> ''/static//'' = r @ replicate n CHR ''/''
         \<and> ''///css/site.css'' = replicate m CHR ''/'' @ p
         \<and> (r = [] \<or> last r \<noteq> CHR ''/'')
         \<and> (p = [] \<or> hd p \<noteq> CHR ''/''))"
proof -
  let ?cfg = "[(static_root_key, ''/static//'')]"
  have h2: "map_of (config (sample_app ?cfg)) static_root_key = Some ''/static//''
       \<or> (map_of (config (sample_app ?cfg)) static_root_key = None
          \<and> map_of (config (sample_app ?cfg)) (StrKey ''static_root_url'') = Some ''/static//'')"
    by (simp add: sample_app_def)
  note c = static_url_single_slash [OF sample_world_app h2, of "''///css/site.css''"]
  show ?thesis
    by (rule conjI [OF sample_world_app conjI [OF h2 c]])
qed

text \<open>
  \<^bold>\<open>Claim C6.\<close> When the application defines neither the \<^verbatim>\<open>static_root_key\<close> entry nor the
  entry \<^verbatim>\<open>'static_root_url'\<close>, \<^verbatim>\<open>static_url\<close> raises \<^verbatim>\<open>RuntimeError\<close> with the documented
  message and returns no URL; nothing else happens.
\<close>

theorem static_url_missing_root:
  assumes "app (ctx w) = Some a"
    and "map_of (config a) static_root_key = None"
    and "map_of (config a) (StrKey ''static_root_url'') = None"
  shows "static_url w static_file_path = (Inl (RuntimeError no_static_root_msg), w)"
  using assms by (simp add: static_url_def)

theorem static_url_missing_root_witness:
  "app (ctx (sample_world [(StrKey ''debug'', ''1'')])) = Some (sample_app [(StrKey ''debug'', ''1'')])
   \<and> map_of (config (sample_app [(StrKey ''debug'', ''1'')])) static_root_key = None
   \<and> map_of (config (sample_app [(StrKey ''debug'', ''1'')])) (StrKey ''static_root_url'') = None
   \<and> static_url (sample_world [(StrKey ''debug'', ''1'')]) ''css/site.css'' =
       (Inl (RuntimeError no_static_root_msg), sample_world [(StrKey ''debug'', ''1'')])"
proof -
  have h2: "map_of (config (sample_app [(StrKey ''debug'', ''1'')])) static_root_key = None"
    by (simp add: sample_app_def static_root_key_def)
  have h3: "map_of (config (sample_app [(StrKey ''debug'', ''1'')])) (StrKey ''static_root_url'') = None"
    by (simp add: sample_app_def)
  note c = static_url_missing_root [OF sample_world_app h2 h3, of "''css/site.css''"]
  show ?thesis
    by (rule conjI [OF sample_world_app conjI [OF h2 conjI [OF h3 c]]])
qed

text \<open>
  \<^bold>\<open>Claim C7.\<close> When the \<^verbatim>\<open>static_root_key\<close> entry is absent and the entry
  \<^verbatim>\<open>'static_root_url'\<close> is present, \<^verbatim>\<open>static_url\<close> takes the value of that entry as the
  root, issues one \<^verbatim>\<open>DeprecationWarning\<close> and returns the joined URL instead of raising.
\<close>

theorem static_url_legacy_root:
  assumes "app (ctx w) = Some a"
    and "map_of (config a) static_root_key = None"
    and "map_of (config a) (StrKey ''static_root_url'') = Some root"
  shows "static_url w static_file_path =
          (Inr (py_rstrip root ''/'' @ ''/'' @ py_lstrip static_file_path ''/''),
           w\<lparr>warnings := warnings w @ [DeprecationWarning deprecated_msg]\<rparr>)"
  using assms by (simp add: static_url_def join_static_def)

theorem static_url_legacy_root_witness:
  "app (ctx (sample_world [(StrKey ''static_root_url'', ''/static//'')]))
     = Some (sample_app [(StrKey ''static_root_url'', ''/static//'')])
   \<and> map_of (config (sample_app [(StrKey ''static_root_url'', ''/static//'')])) static_root_key = None
   \<and> map_of (config (sample_app [(StrKey ''static_root_url'', ''/static//'')]))
        (StrKey ''static_root_url'') = Some ''/static//''
   \<and> static_url (sample_world [(StrKey ''static_root_url'', ''/static//'')]) ''/css/site.css'' =
       (Inr ''/static/css/site.css'',
        \<lparr>ctx = \<lparr>app = Some (sample_app [(StrKey ''static_root_url'', ''/static//'')])\<rparr>,
         warnings = [DeprecationWarning deprecated_msg]\<rparr>)"
proof -
  let ?cfg = "[(StrKey ''static_root_url'', ''/static//'')]"
  have h2: "map_of (config (sample_app ?cfg)) static_root_key = None"
    by (simp add: sample_app_def static_root_key_def)
  have h3: "map_of (config (sample_app ?cfg)) (StrKey ''static_root_url'') = Some ''/static//''"
    by (simp add: sample_app_def)
  have j: "py_rstrip ''/static//'' ''/'' @ ''/'' @ py_lstrip ''/css/site.css'' ''/'' = ''/static/css/site.css''"
    by (simp add: py_rstrip_def py_lstrip_def)
  have w: "(sample_world ?cfg)\<lparr>warnings := warnings (sample_world ?cfg) @ [DeprecationWarning deprecated_msg]\<rparr>
            = \<lparr>ctx = \<lparr>app = Some (sample_app ?cfg)\<rparr>, warnings = [DeprecationWarning deprecated_msg]\<rparr>"
    by (simp add: sample_world_def)
  note c = static_url_legacy_root [OF sample_world_app h2 h3, of "''/css/site.css''", unfolded j w]
  show ?thesis
    by (rule conjI [OF sample_world_app conjI [OF h2 conjI [OF h3 c]]])
qed

section \<open>Properties of \<open>url_for\<close>\<close>

subsection \<open>The builtin \<open>str\<close> on integers\<close>



lemma str_int_examples:
  "str_int 0 = ''0'' \<and> str_int 7 = ''7'' \<and> str_int 1230 = ''1230'' \<and> str_int (- 45) = ''-45''"
  by code_simp

lemma py_str_not_TypeError: "py_str val \<noteq> Inl (TypeError key v)"
proof (cases val)
  case (PStrSub c s m)
  then show ?thesis by (cases m) simp_all
qed (simp_all add: int_str_def)

lemma str_returns_iff: "str_returns v \<longleftrightarrow> (\<exists>r. py_str v = Inr r)"
  by (simp add: str_returns_def split: sum.splits)

lemma str_returns_not_Inl: "str_returns v \<Longrightarrow> py_str v \<noteq> Inl e"
  by (simp add: str_returns_def split: sum.splits)

subsection \<open>One turn of the loop\<close>

lemma update_fresh: "k \<notin> fst ` set al \<Longrightarrow> AList.update k v al = al @ [(k, v)]"
  by (induction al) auto

lemma convert_cases:
  "convert key val = Inl e \<Longrightarrow>
     (\<not> isinstance_str val \<and> \<not> type_is_int val \<and> e = TypeError key val)
   \<or> ((isinstance_str val \<or> type_is_int val) \<and> py_str val = Inl e)"
  by (auto simp: convert_def split: if_splits)

lemma convert_Inr:
  "convert key val = Inr s \<Longrightarrow> (isinstance_str val \<or> type_is_int val) \<and> py_str val = Inr s"
  by (auto simp: convert_def split: if_splits)

lemma convert_good:
  "isinstance_str val \<or> type_is_int val \<Longrightarrow> convert key val = py_str val"
  by (auto simp: convert_def)

lemma convert_bad:
  "\<not> isinstance_str val \<Longrightarrow> \<not> type_is_int val \<Longrightarrow> convert key val = Inl (TypeError key val)"
  by (simp add: convert_def)

lemma parts_clean_loop_Cons:
  "map_of parts key = Some val \<Longrightarrow>
   parts_clean_loop parts (key # keys) acc =
     (case convert key val of
        Inl e \<Rightarrow> Inl e
      | Inr s \<Rightarrow> parts_clean_loop parts keys (AList.update key s acc))"
  by (simp add: convert_def)

lemma parts_clean_loop_step:
  "map_of parts key = Some val \<Longrightarrow> convert key val = Inr s \<Longrightarrow>
   parts_clean_loop parts (key # keys) acc = parts_clean_loop parts keys (AList.update key s acc)"
  by (simp only: parts_clean_loop_Cons sum.case)

lemma parts_clean_loop_stop:
  "map_of parts key = Some val \<Longrightarrow> convert key val = Inl e \<Longrightarrow>
   parts_clean_loop parts (key # keys) acc = Inl e"
  by (simp only: parts_clean_loop_Cons sum.case)

subsection \<open>The loop over the keyword arguments\<close>

text \<open>The loop goes on as long as a value passes one of the two tests and \<^verbatim>\<open>str\<close> returns
  for it, stops with the exception of the first turn that raises, and never meets a missing
  key, since it visits the keys of \<open>parts\<close> itself.\<close>

lemma parts_clean_loop_first_bad:
  assumes "\<forall>k \<in> set ks1. \<exists>v s. map_of parts k = Some v \<and> convert k v = Inr s"
    and "map_of parts key = Some val"
    and "convert key val = Inl e"
  shows "parts_clean_loop parts (ks1 @ key # ks2) acc = Inl e"
  using assms(1)
proof (induction ks1 arbitrary: acc)
  case Nil
  show ?case using parts_clean_loop_stop [OF assms(2,3)] by simp
next
  case (Cons k ks1)
  then obtain v s where v: "map_of parts k = Some v" "convert k v = Inr s"
    by auto
  have "parts_clean_loop parts ((k # ks1) @ key # ks2) acc =
        parts_clean_loop parts (ks1 @ key # ks2) (AList.update k s acc)"
    using parts_clean_loop_step [OF v] by simp
  also have "\<dots> = Inl e"
    using Cons by simp
  finally show ?case .
qed

lemma parts_clean_loop_Inr:
  assumes "parts_clean_loop parts keys acc = Inr pc"
  shows "(\<forall>k \<in> set keys. \<exists>v s. map_of parts k = Some v \<and> convert k v = Inr s
                            \<and> map_of pc k = Some s)
       \<and> (\<forall>k. k \<notin> set keys \<longrightarrow> map_of pc k = map_of acc k)
       \<and> fst ` set pc = fst ` set acc \<union> set keys
       \<and> (distinct (map fst acc) \<longrightarrow> distinct (map fst pc))"
  using assms
proof (induction keys arbitrary: acc)
  case Nil
  then show ?case by simp
next
  case (Cons key keys)
  from Cons.prems obtain v where v: "map_of parts key = Some v"
    by (cases "map_of parts key") auto
  from Cons.prems obtain s where s: "convert key v = Inr s"
    unfolding parts_clean_loop_Cons [OF v] by (cases "convert key v") auto
  from Cons.prems have rest: "parts_clean_loop parts keys (AList.update key s acc) = Inr pc"
    by (simp only: parts_clean_loop_step [OF v s])
  note ih = Cons.IH [OF rest]
  have here: "map_of pc key = Some s"
  proof (cases "key \<in> set keys")
    case True
    with ih obtain v' s' where "map_of parts key = Some v'" "convert key v' = Inr s'"
      "map_of pc key = Some s'" by blast
    with v s show ?thesis by simp
  next
    case False
    with ih have "map_of pc key = map_of (AList.update key s acc) key" by blast
    then show ?thesis by (simp add: update_conv')
  qed
  have a: "\<forall>k \<in> set (key # keys). \<exists>v s. map_of parts k = Some v \<and> convert k v = Inr s
                            \<and> map_of pc k = Some s"
    using ih v s here by auto
  have b: "\<forall>k. k \<notin> set (key # keys) \<longrightarrow> map_of pc k = map_of acc k"
    using ih by (auto simp: update_conv')
  have c: "fst ` set pc = fst ` set acc \<union> set (key # keys)"
    using ih by (auto simp: dom_update)
  have d: "distinct (map fst acc) \<longrightarrow> distinct (map fst pc)"
    using ih by (auto simp: distinct_update)
  from a b c d show ?case by (intro conjI)
qed

lemma parts_clean_loop_ok:
  assumes "\<forall>k \<in> set keys. \<exists>v s. map_of parts k = Some v \<and> convert k v = Inr s"
  shows "\<exists>pc. parts_clean_loop parts keys acc = Inr pc"
  using assms
proof (induction keys arbitrary: acc)
  case Nil
  then show ?case by simp
next
  case (Cons key keys)
  then obtain v s where v: "map_of parts key = Some v" "convert key v = Inr s"
    by auto
  show ?case
    unfolding parts_clean_loop_step [OF v] using Cons by simp
qed

lemma parts_clean_loop_order:
  assumes "parts_clean_loop parts keys acc = Inr pc"
    and "distinct keys"
    and "fst ` set acc \<inter> set keys = {}"
  shows "map fst pc = map fst acc @ keys"
  using assms
proof (induction keys arbitrary: acc)
  case Nil
  then show ?case by simp
next
  case (Cons key keys)
  from Cons.prems(1) obtain v where v: "map_of parts key = Some v"
    by (cases "map_of parts key") auto
  from Cons.prems(1) obtain s where s: "convert key v = Inr s"
    unfolding parts_clean_loop_Cons [OF v] by (cases "convert key v") auto
  from Cons.prems(3) have fresh: "key \<notin> fst ` set acc" by auto
  from Cons.prems(1) have rest: "parts_clean_loop parts keys (acc @ [(key, s)]) = Inr pc"
    by (simp only: parts_clean_loop_step [OF v s] update_fresh [OF fresh])
  have "map fst pc = map fst (acc @ [(key, s)]) @ keys"
  proof (rule Cons.IH [OF rest])
    show "distinct keys" using Cons.prems(2) by simp
    show "fst ` set (acc @ [(key, s)]) \<inter> set keys = {}"
      using Cons.prems(2,3) by auto
  qed
  then show ?case by simp
qed

lemma keys_have_values: "k \<in> set (map fst parts) \<Longrightarrow> \<exists>v. map_of parts k = Some v"
  by (metis map_of_eq_None_iff not_Some_eq set_map)

lemma values_have_keys: "map_of parts k = Some v \<Longrightarrow> k \<in> set (map fst parts)"
  by (metis map_of_eq_None_iff option.distinct(1) set_map)

lemma good_key_iff:
  "good_key parts k \<longleftrightarrow> (\<exists>v s. map_of parts k = Some v \<and> convert k v = Inr s)"
  by (simp add: good_key_def split: option.splits sum.splits)

lemma parts_clean_loop_cases:
  "(\<exists>pc. parts_clean_loop parts (map fst parts) [] = Inr pc)
   \<or> (\<exists>key val e. parts_clean_loop parts (map fst parts) [] = Inl e
        \<and> map_of parts key = Some val \<and> convert key val = Inl e)"
proof (cases "\<exists>k \<in> set (map fst parts). \<not> good_key parts k")
  case True
  from split_list_first_prop [OF True]
  obtain ks1 key ks2 where decomp: "map fst parts = ks1 @ key # ks2"
    and bad: "\<not> good_key parts key"
    and good: "\<forall>k \<in> set ks1. \<not> \<not> good_key parts k"
    by (elim exE conjE)
  have "key \<in> set (ks1 @ key # ks2)" by simp
  then have "key \<in> set (map fst parts)" by (simp only: decomp)
  from keys_have_values [OF this]
  obtain val where val: "map_of parts key = Some val" ..
  with bad obtain e where e: "convert key val = Inl e"
    by (cases "convert key val") (simp_all add: good_key_iff)
  from good have good': "\<forall>k \<in> set ks1. \<exists>v s. map_of parts k = Some v \<and> convert k v = Inr s"
    by (simp add: good_key_iff)
  have "parts_clean_loop parts (ks1 @ key # ks2) [] = Inl e"
    by (rule parts_clean_loop_first_bad [OF good' val e])
  then have "parts_clean_loop parts (map fst parts) [] = Inl e"
    by (simp only: decomp)
  with val e show ?thesis by (intro disjI2 exI conjI)
next
  case False
  then have all: "\<forall>k \<in> set (map fst parts). \<exists>v s. map_of parts k = Some v \<and> convert k v = Inr s"
    by (simp add: good_key_iff)
  from parts_clean_loop_ok [OF all]
  obtain pc where pc: "parts_clean_loop parts (map fst parts) [] = Inr pc" ..
  then show ?thesis by (intro disjI1 exI)
qed

text \<open>What the finished loop says about every keyword.\<close>

lemma parts_clean_loop_values:
  assumes "parts_clean_loop parts (map fst parts) [] = Inr pc"
    and "map_of parts k = Some v"
  shows "(isinstance_str v \<or> type_is_int v) \<and> (\<exists>r. py_str v = Inr r \<and> map_of pc k = Some r)"
proof -
  have "k \<in> set (map fst parts)" using assms(2) by (rule values_have_keys)
  with parts_clean_loop_Inr [OF assms(1)]
  obtain v' s where "map_of parts k = Some v'" "convert k v' = Inr s" "map_of pc k = Some s"
    by blast
  with assms(2) have s: "convert k v = Inr s" "map_of pc k = Some s" by simp_all
  from convert_Inr [OF s(1)] s(2) show ?thesis by simp
qed

text \<open>When the loop stops, it stops at a keyword, with that turn's exception.\<close>

lemma parts_clean_loop_Inl:
  assumes "parts_clean_loop parts (map fst parts) [] = Inl e"
  shows "\<exists>key val. map_of parts key = Some val \<and> convert key val = Inl e"
  using parts_clean_loop_cases [of parts] assms by auto

subsection \<open>The call as a whole\<close>

lemma url_for_no_app:
  "app (ctx w) = None \<Longrightarrow> url_for with_query w route_name query parts = (Inl (KeyError ''app''), w)"
  by (simp add: url_for_def)

lemma url_for_loop_Inl:
  "app (ctx w) = Some a \<Longrightarrow> parts_clean_loop parts (map fst parts) [] = Inl e \<Longrightarrow>
   url_for with_query w route_name query parts = (Inl e, w)"
  by (simp add: url_for_def)

lemma url_for_loop_Inr:
  "app (ctx w) = Some a \<Longrightarrow> parts_clean_loop parts (map fst parts) [] = Inr pc \<Longrightarrow>
   url_for with_query w route_name query parts =
     (case resolve a route_name pc of
        Inl e \<Rightarrow> (Inl e, w)
      | Inr url \<Rightarrow> (Inr (attach_query with_query query url), w))"
  by (simp add: url_for_def)

text \<open>The router is asked for the route by its name, and the resource found is called
  with the map it is given.\<close>

lemma resolve_router:
  "resolve a route_name pc =
     (case router a route_name of
        None \<Rightarrow> Inl (KeyError route_name)
      | Some resource \<Rightarrow>
          (case resource pc of Inl x \<Rightarrow> Inl (Propagated x) | Inr url \<Rightarrow> Inr url))"
  by (simp add: resolve_def)

lemma url_for_router_call:
  assumes "app (ctx w) = Some a"
    and "parts_clean_loop parts (map fst parts) [] = Inr pc"
  shows "url_for with_query w route_name query parts =
          (case router a route_name of
             None \<Rightarrow> (Inl (KeyError route_name), w)
           | Some resource \<Rightarrow>
               (case resource pc of
                  Inl x \<Rightarrow> (Inl (Propagated x), w)
                | Inr url \<Rightarrow> (Inr (attach_query with_query query url), w)))"
  unfolding url_for_loop_Inr [OF assms] resolve_router
  by (simp split: option.splits sum.splits)

lemma resolve_not_TypeError: "resolve a route_name pc \<noteq> Inl (TypeError key val)"
  by (simp add: resolve_def split: option.splits sum.splits)

lemma url_for_world: "snd (url_for with_query w route_name query parts) = w"
  by (simp add: url_for_def split: option.splits sum.splits)

lemma url_for_reads_ctx:
  "ctx w' = ctx w \<Longrightarrow>
   fst (url_for with_query w' route_name query parts) = fst (url_for with_query w route_name query parts)"
  by (simp add: url_for_def split: option.splits sum.splits)

lemma url_for_type_error_sound:
  assumes "app (ctx w) = Some a"
    and "fst (url_for with_query w route_name query parts) = Inl (TypeError key val)"
  shows "map_of parts key = Some val \<and> \<not> isinstance_str val \<and> \<not> type_is_int val
       \<and> url_for with_query w route_name query parts = (Inl (TypeError key val), w)
       \<and> parts_clean_loop parts (map fst parts) [] = Inl (TypeError key val)"
proof -
  from parts_clean_loop_cases [of parts]
  show ?thesis
  proof (elim disjE exE conjE)
    fix pc
    assume pc: "parts_clean_loop parts (map fst parts) [] = Inr pc"
    have "fst (url_for with_query w route_name query parts) \<noteq> Inl (TypeError key val)"
      unfolding url_for_loop_Inr [OF assms(1) pc]
      using resolve_not_TypeError [of a route_name pc key val]
      by (cases "resolve a route_name pc") simp_all
    with assms(2) show ?thesis by contradiction
  next
    fix key' val' e
    assume bad: "parts_clean_loop parts (map fst parts) [] = Inl e"
      and val: "map_of parts key' = Some val'"
      and conv: "convert key' val' = Inl e"
    have r: "url_for with_query w route_name query parts = (Inl e, w)"
      by (rule url_for_loop_Inl [OF assms(1) bad])
    with assms(2) have e: "e = TypeError key val" by simp
    from convert_cases [OF conv] py_str_not_TypeError [of val' key val] e
    have "\<not> isinstance_str val'" "\<not> type_is_int val'" "TypeError key val = TypeError key' val'"
      by auto
    with r val bad e show ?thesis by simp
  qed
qed

subsection \<open>Sample calls\<close>

lemma sample_parts_loop:
  "parts_clean_loop sample_parts (map fst sample_parts) [] =
     Inr [(''id'', Plain ''123''), (''slug'', Plain ''ab'')]"
  by code_simp

lemma sample_resolve:
  "resolve (sample_app cfg) ''item'' [(''id'', Plain ''123''), (''slug'', Plain ''ab'')] = Inr ''/items/123''"
  by (simp add: resolve_def sample_app_def sample_router_def item_resource_def)

lemma small_int_returns: "str_returns (PInt 7) \<and> str_returns (PInt 123)"
  by code_simp

lemma sample_parts_good:
  "\<forall>k v. map_of sample_parts k = Some v \<longrightarrow> isinstance_str v \<or> type_is_int v"
  by (auto simp: sample_parts_def split: if_splits)

lemma sample_parts_returns:
  "\<forall>k v. map_of sample_parts k = Some v \<longrightarrow> str_returns v"
  using small_int_returns by (auto simp: sample_parts_def str_returns_def split: if_splits)


text \<open>A \<^verbatim>\<open>__str__\<close> that raises: its exception leaves \<^verbatim>\<open>url_for\<close> as it is.\<close>

lemma url_for_str_raises:
  "url_for with_query (sample_world cfg) ''item'' query
       [(''id'', PStrSub ''Broken'' ''ab'' (Raises (Exn ''RuntimeError'' ''boom'')))]
     = (Inl (Propagated (Exn ''RuntimeError'' ''boom'')), sample_world cfg)"
  by (simp add: url_for_def sample_world_def)

subsection \<open>The claims about \<open>url_for\<close>\<close>

text \<open>
  \<^bold>\<open>Claim C1.\<close> Take a call whose context holds the application and in which every
  keyword-argument value is a \<^verbatim>\<open>str\<close> (or of a class derived from it) or a plain \<^verbatim>\<open>int\<close>.
  Whenever the loop ends with a parameter map \<open>pc\<close>, that map has exactly the keys of the
  keyword arguments, each once (and in their order, for a dictionary), it holds under each
  key the string form \<^verbatim>\<open>str(val)\<close> of the original value, and it is the map the router's
  resource is called with: \<^verbatim>\<open>url_for\<close> returns what \<open>resource pc\<close> gives for the resource
  that \<^verbatim>\<open>app.router[name]\<close> finds. The loop does end when \<^verbatim>\<open>str\<close> returns for every value;
  when it does not end, \<^verbatim>\<open>url_for\<close> raises what \<^verbatim>\<open>str\<close> raised for one of the values.
\<close>

theorem url_for_parts_stringified:
  assumes "app (ctx w) = Some a"
    and "\<forall>k v. map_of parts k = Some v \<longrightarrow> isinstance_str v \<or> type_is_int v"
  shows "(\<forall>pc. parts_clean_loop parts (map fst parts) [] = Inr pc \<longrightarrow>
            set (map fst pc) = set (map fst parts)
          \<and> distinct (map fst pc)
          \<and> (\<forall>k v. map_of parts k = Some v \<longrightarrow> (\<exists>r. py_str v = Inr r \<and> map_of pc k = Some r))
          \<and> (distinct (map fst parts) \<longrightarrow> map fst pc = map fst parts)
          \<and> url_for with_query w route_name query parts =
              (case router a route_name of
                 None \<Rightarrow> (Inl (KeyError route_name), w)
               | Some resource \<Rightarrow>
                   (case resource pc of
                      Inl x \<Rightarrow> (Inl (Propagated x), w)
                    | Inr url \<Rightarrow> (Inr (attach_query with_query query url), w))))
       \<and> ((\<forall>k v. map_of parts k = Some v \<longrightarrow> str_returns v)
            \<longrightarrow> (\<exists>pc. parts_clean_loop parts (map fst parts) [] = Inr pc))
       \<and> (\<forall>e. parts_clean_loop parts (map fst parts) [] = Inl e \<longrightarrow>
            url_for with_query w route_name query parts = (Inl e, w)
          \<and> (\<exists>k v. map_of parts k = Some v \<and> py_str v = Inl e))"
proof (intro conjI allI impI)
  fix pc
  assume pc: "parts_clean_loop parts (map fst parts) [] = Inr pc"
  note facts = parts_clean_loop_Inr [OF pc]
  show "set (map fst pc) = set (map fst parts)"
    using facts by simp
  show "distinct (map fst pc)"
    using facts by simp
  show "url_for with_query w route_name query parts =
              (case router a route_name of
                 None \<Rightarrow> (Inl (KeyError route_name), w)
               | Some resource \<Rightarrow>
                   (case resource pc of
                      Inl x \<Rightarrow> (Inl (Propagated x), w)
                    | Inr url \<Rightarrow> (Inr (attach_query with_query query url), w)))"
    by (rule url_for_router_call [OF assms(1) pc])
  {
    fix k v
    assume "map_of parts k = Some v"
    from parts_clean_loop_values [OF pc this]
    show "\<exists>r. py_str v = Inr r \<and> map_of pc k = Some r" by simp
  }
  {
    assume d: "distinct (map fst parts)"
    from parts_clean_loop_order [OF pc d]
    show "map fst pc = map fst parts" by simp
  }
next
  assume ret: "\<forall>k v. map_of parts k = Some v \<longrightarrow> str_returns v"
  from parts_clean_loop_cases [of parts]
  show "\<exists>pc. parts_clean_loop parts (map fst parts) [] = Inr pc"
  proof (elim disjE exE conjE)
    fix pc assume "parts_clean_loop parts (map fst parts) [] = Inr pc"
    then show ?thesis ..
  next
    fix key val e
    assume val: "map_of parts key = Some val" and conv: "convert key val = Inl e"
    from assms(2) val have ok: "isinstance_str val \<or> type_is_int val" by blast
    from ret val have "str_returns val" by blast
    then have "py_str val \<noteq> Inl e" by (rule str_returns_not_Inl)
    with conv convert_good [OF ok, of key] show ?thesis by simp
  qed
next
  fix e
  assume bad: "parts_clean_loop parts (map fst parts) [] = Inl e"
  show "url_for with_query w route_name query parts = (Inl e, w)"
    by (rule url_for_loop_Inl [OF assms(1) bad])
  from parts_clean_loop_Inl [OF bad]
  obtain key val where val: "map_of parts key = Some val" and conv: "convert key val = Inl e"
    by (elim exE conjE)
  from assms(2) val have ok: "isinstance_str val \<or> type_is_int val" by blast
  with conv have "py_str val = Inl e" by (simp only: convert_good)
  with val show "\<exists>k v. map_of parts k = Some v \<and> py_str v = Inl e"
    by (intro exI conjI)
qed

theorem url_for_parts_stringified_witness:
  "app (ctx (sample_world [])) = Some (sample_app [])
   \<and> list_all (\<lambda>(k, v). isinstance_str v \<or> type_is_int v) sample_parts
   \<and> list_all (\<lambda>(k, v). str_returns v) sample_parts
   \<and> distinct (map fst sample_parts)
   \<and> parts_clean_loop sample_parts (map fst sample_parts) [] =
       Inr [(''id'', Plain ''123''), (''slug'', Plain ''ab'')]
   \<and> map fst [(''id'', Plain ''123''), (''slug'', Plain ''ab'')] = map fst sample_parts
   \<and> url_for sample_with_query (sample_world []) ''item'' (Some [(''active'', ''true'')]) sample_parts
       = (Inr ''/items/123?active=true'', sample_world [])"
proof -
  let ?pc = "[(''id'', Plain ''123''), (''slug'', Plain ''ab'')]"
  note t = url_for_parts_stringified [OF sample_world_app [of "[]"] sample_parts_good,
      where with_query = sample_with_query and route_name = "''item''"
        and query = "Some [(''active'', ''true'')]"]
  note at_pc = mp [OF spec [OF t [THEN conjunct1], of ?pc] sample_parts_loop]
  have d: "distinct (map fst sample_parts)"
    by (simp add: sample_parts_def)
  have keys: "map fst ?pc = map fst sample_parts"
    by (rule mp [OF at_pc [THEN conjunct2, THEN conjunct2, THEN conjunct2, THEN conjunct1] d])
  note call = at_pc [THEN conjunct2, THEN conjunct2, THEN conjunct2, THEN conjunct2]
  have u: "url_for sample_with_query (sample_world []) ''item'' (Some [(''active'', ''true'')]) sample_parts
       = (Inr ''/items/123?active=true'', sample_world [])"
    unfolding call
    by (simp add: sample_app_def sample_router_def item_resource_def attach_query_def
        sample_with_query_def)
  have g: "list_all (\<lambda>(k, v). isinstance_str v \<or> type_is_int v) sample_parts"
    by (simp add: sample_parts_def)
  have s: "list_all (\<lambda>(k, v). str_returns v) sample_parts"
    using small_int_returns by (simp add: sample_parts_def str_returns_def)
  show ?thesis
    by (rule conjI [OF sample_world_app conjI [OF g conjI [OF s conjI [OF d
            conjI [OF sample_parts_loop conjI [OF keys u]]]]]])
qed









text \<open>
  \<^bold>\<open>Claim C9.\<close> A call with an empty query mapping behaves as the call without
  \<^verbatim>\<open>query_\<close>: in every case both give the same result, and when the route resolves to
  \<open>url\<close> the result is exactly \<open>url\<close>, with no query attached.
\<close>

theorem url_for_empty_query:
  "url_for with_query w route_name (Some []) parts = url_for with_query w route_name None parts
   \<and> (app (ctx w) = Some a \<and> parts_clean_loop parts (map fst parts) [] = Inr pc
        \<and> resolve a route_name pc = Inr url
      \<longrightarrow> url_for with_query w route_name (Some []) parts = (Inr url, w))"
proof (intro conjI impI)
  show "url_for with_query w route_name (Some []) parts
             = url_for with_query w route_name None parts"
    by (simp add: url_for_def attach_query_def split: option.splits sum.splits)
next
  assume h: "app (ctx w) = Some a \<and> parts_clean_loop parts (map fst parts) [] = Inr pc
        \<and> resolve a route_name pc = Inr url"
  then have "url_for with_query w route_name (Some []) parts =
     (case resolve a route_name pc of
        Inl e \<Rightarrow> (Inl e, w)
      | Inr url \<Rightarrow> (Inr (attach_query with_query (Some []) url), w))"
    using url_for_loop_Inr [of w a parts pc with_query route_name "Some []"] by simp
  with h show "url_for with_query w route_name (Some []) parts = (Inr url, w)"
    by (simp add: attach_query_def)
qed

theorem url_for_empty_query_witness:
  "app (ctx (sample_world [])) = Some (sample_app [])
   \<and> parts_clean_loop sample_parts (map fst sample_parts) [] = Inr [(''id'', Plain ''123''), (''slug'', Plain ''ab'')]
   \<and> resolve (sample_app []) ''item'' [(''id'', Plain ''123''), (''slug'', Plain ''ab'')] = Inr ''/items/123''
   \<and> url_for sample_with_query (sample_world []) ''item'' (Some []) sample_parts
       = (Inr ''/items/123'', sample_world [])
   \<and> url_for sample_with_query (sample_world []) ''item'' (Some []) sample_parts
       = url_for sample_with_query (sample_world []) ''item'' None sample_parts"
proof -
  note t = url_for_empty_query [of sample_with_query "sample_world []" "''item''" sample_parts
      "sample_app []" "[(''id'', Plain ''123''), (''slug'', Plain ''ab'')]" "''/items/123''"]
  have same: "url_for sample_with_query (sample_world []) ''item'' (Some []) sample_parts
       = url_for sample_with_query (sample_world []) ''item'' None sample_parts"
    by (rule t [THEN conjunct1])
  have hyps: "app (ctx (sample_world [])) = Some (sample_app [])
     \<and> parts_clean_loop sample_parts (map fst sample_parts) [] = Inr [(''id'', Plain ''123''), (''slug'', Plain ''ab'')]
     \<and> resolve (sample_app []) ''item'' [(''id'', Plain ''123''), (''slug'', Plain ''ab'')] = Inr ''/items/123''"
    by (rule conjI [OF sample_world_app conjI [OF sample_parts_loop sample_resolve]])
  have r: "url_for sample_with_query (sample_world []) ''item'' (Some []) sample_parts
       = (Inr ''/items/123'', sample_world [])"
    by (rule mp [OF t [THEN conjunct2] hyps])
  show ?thesis
    by (rule conjI [OF sample_world_app conjI [OF sample_parts_loop conjI [OF sample_resolve conjI [OF r same]]]])
qed

text \<open>
  \<^bold>\<open>Claim C10, as stated, fails.\<close> The value stored is \<^verbatim>\<open>str(val)\<close>, and a class derived
  from \<^verbatim>\<open>str\<close> may define \<^verbatim>\<open>__str__\<close>: for a class whose \<^verbatim>\<open>__str__\<close> returns other text
  the parameter map holds that text, which is not equal to the value, and for a class whose
  \<^verbatim>\<open>__str__\<close> returns the object itself the map holds an instance of the class, not a
  plain \<^verbatim>\<open>str\<close>.
\<close>

theorem url_for_str_subclass_overrides:
  "url_for sample_with_query (sample_world []) ''item'' None
       [(''id'', PStrSub ''Shout'' ''ab'' (Returns (Plain ''AB!'')))]
     = (Inr ''/items/AB!'', sample_world [])
   \<and> parts_clean_loop [(''id'', PStrSub ''Shout'' ''ab'' (Returns (Plain ''AB!'')))] [''id''] []
     = Inr [(''id'', Plain ''AB!'')]
   \<and> contents (Plain ''AB!'') \<noteq> ''ab''
   \<and> parts_clean_loop [(''id'', PStrSub ''Tag'' ''ab'' (Returns (Derived ''Tag'' ''ab'')))] [''id''] []
     = Inr [(''id'', Derived ''Tag'' ''ab'')]
   \<and> \<not> is_plain (Derived ''Tag'' ''ab'')"
  by (simp add: url_for_def sample_world_def sample_app_def resolve_def sample_router_def
      item_resource_def attach_query_def)

text \<open>
  \<^bold>\<open>Claim C10, amended.\<close> With the application in the context, a keyword argument \<open>k\<close>
  whose value is an instance of a class properly derived from \<^verbatim>\<open>str\<close> is accepted: a
  \<^verbatim>\<open>TypeError\<close> of the loop never names \<open>k\<close>. Whenever the loop ends, the parameter map
  holds under \<open>k\<close> what \<^verbatim>\<open>str(val)\<close> returned, that is what the class's \<^verbatim>\<open>__str__\<close>
  returns; for a class that inherits \<^verbatim>\<open>str.__str__\<close> this is a plain \<^verbatim>\<open>str\<close> with the
  contents of the value. When \<^verbatim>\<open>str\<close> returns for the value and the other values are
  acceptable with \<^verbatim>\<open>str\<close> returning for them, the loop does end and that map goes to the
  router's resource.
\<close>

theorem url_for_str_subclass:
  assumes "app (ctx w) = Some a"
    and "map_of parts k = Some (PStrSub c s m)"
  shows "(\<forall>key val. fst (url_for with_query w route_name query parts) = Inl (TypeError key val)
            \<longrightarrow> key \<noteq> k)
       \<and> (\<forall>pc. parts_clean_loop parts (map fst parts) [] = Inr pc \<longrightarrow>
            (\<exists>r. map_of pc k = Some r \<and> py_str (PStrSub c s m) = Inr r)
          \<and> (m = Inherited \<longrightarrow> map_of pc k = Some (Plain s)))
       \<and> ((\<forall>k' v'. k' \<noteq> k \<and> map_of parts k' = Some v'
               \<longrightarrow> (isinstance_str v' \<or> type_is_int v') \<and> str_returns v')
          \<and> str_returns (PStrSub c s m)
            \<longrightarrow> (\<exists>pc r. parts_clean_loop parts (map fst parts) [] = Inr pc
                   \<and> py_str (PStrSub c s m) = Inr r
                   \<and> map_of pc k = Some r
                   \<and> url_for with_query w route_name query parts =
                       (case router a route_name of
                          None \<Rightarrow> (Inl (KeyError route_name), w)
                        | Some resource \<Rightarrow>
                            (case resource pc of
                               Inl x \<Rightarrow> (Inl (Propagated x), w)
                             | Inr url \<Rightarrow> (Inr (attach_query with_query query url), w)))))"
proof -
  let ?r = "url_for with_query w route_name query parts"
  have accepted: "\<forall>key val. fst ?r = Inl (TypeError key val) \<longrightarrow> key \<noteq> k"
  proof (intro allI impI)
    fix key val
    assume "fst ?r = Inl (TypeError key val)"
    from url_for_type_error_sound [OF assms(1) this]
    have "map_of parts key = Some val" "\<not> isinstance_str val" by simp_all
    with assms(2) show "key \<noteq> k" by auto
  qed
  have stored: "\<forall>pc. parts_clean_loop parts (map fst parts) [] = Inr pc \<longrightarrow>
            (\<exists>r. map_of pc k = Some r \<and> py_str (PStrSub c s m) = Inr r)
          \<and> (m = Inherited \<longrightarrow> map_of pc k = Some (Plain s))"
  proof (intro allI impI)
    fix pc
    assume pc: "parts_clean_loop parts (map fst parts) [] = Inr pc"
    from parts_clean_loop_values [OF pc assms(2)]
    obtain r where r: "py_str (PStrSub c s m) = Inr r" "map_of pc k = Some r"
      by (elim conjE exE)
    have inh: "m = Inherited \<longrightarrow> map_of pc k = Some (Plain s)"
      using r by auto
    have ex: "\<exists>r. map_of pc k = Some r \<and> py_str (PStrSub c s m) = Inr r"
      using r by (intro exI [of _ r]) simp
    from ex inh
    show "(\<exists>r. map_of pc k = Some r \<and> py_str (PStrSub c s m) = Inr r)
          \<and> (m = Inherited \<longrightarrow> map_of pc k = Some (Plain s))"
      by (intro conjI)
  qed
  have passed: "(\<forall>k' v'. k' \<noteq> k \<and> map_of parts k' = Some v'
               \<longrightarrow> (isinstance_str v' \<or> type_is_int v') \<and> str_returns v')
          \<and> str_returns (PStrSub c s m)
            \<longrightarrow> (\<exists>pc r. parts_clean_loop parts (map fst parts) [] = Inr pc
                   \<and> py_str (PStrSub c s m) = Inr r
                   \<and> map_of pc k = Some r
                   \<and> ?r =
                       (case router a route_name of
                          None \<Rightarrow> (Inl (KeyError route_name), w)
                        | Some resource \<Rightarrow>
                            (case resource pc of
                               Inl x \<Rightarrow> (Inl (Propagated x), w)
                             | Inr url \<Rightarrow> (Inr (attach_query with_query query url), w))))"
  proof
    assume h: "(\<forall>k' v'. k' \<noteq> k \<and> map_of parts k' = Some v'
               \<longrightarrow> (isinstance_str v' \<or> type_is_int v') \<and> str_returns v')
          \<and> str_returns (PStrSub c s m)"
    then have others: "\<forall>k' v'. k' \<noteq> k \<and> map_of parts k' = Some v'
               \<longrightarrow> (isinstance_str v' \<or> type_is_int v') \<and> str_returns v'"
      and mine: "str_returns (PStrSub c s m)"
      by simp_all
    have all: "(isinstance_str v' \<or> type_is_int v') \<and> str_returns v'"
      if kv: "map_of parts k' = Some v'" for k' v'
    proof (cases "k' = k")
      case True
      with kv assms(2) have "v' = PStrSub c s m" by simp
      with mine show ?thesis by simp
    next
      case False
      with others kv show ?thesis by blast
    qed
    from parts_clean_loop_cases [of parts]
    obtain pc where pc: "parts_clean_loop parts (map fst parts) [] = Inr pc"
    proof (elim disjE exE conjE)
      fix pc assume "parts_clean_loop parts (map fst parts) [] = Inr pc"
      then show thesis by (rule that)
    next
      fix key val e
      assume val: "map_of parts key = Some val" and conv: "convert key val = Inl e"
      from all [OF val] have ok: "isinstance_str val \<or> type_is_int val"
        and "str_returns val" by simp_all
      then have "py_str val \<noteq> Inl e" by (simp only: str_returns_not_Inl not_False_eq_True)
      with conv convert_good [OF ok, of key] show thesis by simp
    qed
    from parts_clean_loop_values [OF pc assms(2)]
    obtain r where r: "py_str (PStrSub c s m) = Inr r" "map_of pc k = Some r"
      by (elim conjE exE)
    show "\<exists>pc r. parts_clean_loop parts (map fst parts) [] = Inr pc
                   \<and> py_str (PStrSub c s m) = Inr r
                   \<and> map_of pc k = Some r
                   \<and> ?r =
                       (case router a route_name of
                          None \<Rightarrow> (Inl (KeyError route_name), w)
                        | Some resource \<Rightarrow>
                            (case resource pc of
                               Inl x \<Rightarrow> (Inl (Propagated x), w)
                             | Inr url \<Rightarrow> (Inr (attach_query with_query query url), w)))"
      apply (rule exI [of _ pc], rule exI [of _ r])
      apply (intro conjI)
         apply (rule pc)
        apply (rule r(1))
       apply (rule r(2))
      apply (rule url_for_router_call [OF assms(1) pc])
      done
  qed
  from accepted stored passed show ?thesis by (intro conjI)
qed

theorem url_for_str_subclass_witness:
  "app (ctx (sample_world [])) = Some (sample_app [])
   \<and> map_of sample_parts ''slug'' = Some (PStrSub ''Markup'' ''ab'' Inherited)
   \<and> list_all (\<lambda>(k, v). k = ''slug'' \<or> (isinstance_str v \<or> type_is_int v) \<and> str_returns v)
        sample_parts
   \<and> str_returns (PStrSub ''Markup'' ''ab'' Inherited)
   \<and> parts_clean_loop sample_parts (map fst sample_parts) [] =
       Inr [(''id'', Plain ''123''), (''slug'', Plain ''ab'')]
   \<and> map_of [(''id'', Plain ''123''), (''slug'', Plain ''ab'')] ''slug'' = Some (Plain ''ab'')
   \<and> (\<exists>pc r. parts_clean_loop sample_parts (map fst sample_parts) [] = Inr pc
          \<and> py_str (PStrSub ''Markup'' ''ab'' Inherited) = Inr r
          \<and> map_of pc ''slug'' = Some r
          \<and> url_for sample_with_query (sample_world []) ''item'' None sample_parts =
               (case router (sample_app []) ''item'' of
                  None \<Rightarrow> (Inl (KeyError ''item''), sample_world [])
                | Some resource \<Rightarrow>
                    (case resource pc of
                       Inl x \<Rightarrow> (Inl (Propagated x), sample_world [])
                     | Inr url \<Rightarrow> (Inr (attach_query sample_with_query None url), sample_world []))))"
proof -
  have h2: "map_of sample_parts ''slug'' = Some (PStrSub ''Markup'' ''ab'' Inherited)"
    by (simp add: sample_parts_def)
  have others: "\<forall>k' v'. k' \<noteq> ''slug'' \<and> map_of sample_parts k' = Some v'
                  \<longrightarrow> (isinstance_str v' \<or> type_is_int v') \<and> str_returns v'"
    using small_int_returns by (auto simp: sample_parts_def split: if_splits)
  have mine: "str_returns (PStrSub ''Markup'' ''ab'' Inherited)"
    by (simp add: str_returns_def)
  note t = url_for_str_subclass [OF sample_world_app [of "[]"] h2,
      where with_query = sample_with_query and route_name = "''item''" and query = None]
  note at_pc = mp [OF spec [OF t [THEN conjunct2, THEN conjunct1]] sample_parts_loop]
  have stored: "map_of [(''id'', Plain ''123''), (''slug'', Plain ''ab'')] ''slug'' = Some (Plain ''ab'')"
    by (rule mp [OF at_pc [THEN conjunct2] refl])
  note passed = mp [OF t [THEN conjunct2, THEN conjunct2] conjI [OF others mine]]
  have g: "list_all (\<lambda>(k, v). k = ''slug'' \<or> (isinstance_str v \<or> type_is_int v) \<and> str_returns v)
        sample_parts"
    using small_int_returns by (simp add: sample_parts_def)
  show ?thesis
    by (rule conjI [OF sample_world_app conjI [OF h2 conjI [OF g conjI [OF mine
            conjI [OF sample_parts_loop conjI [OF stored passed]]]]]])
qed

section \<open>Effects of the two helpers\<close>

text \<open>
  \<^bold>\<open>Claim C8, as stated, fails.\<close> On the legacy branch \<^verbatim>\<open>static_url\<close> returns a URL, so it
  does not raise, and yet the state after the call differs from the state before it: a
  \<^verbatim>\<open>DeprecationWarning\<close> has been issued.
\<close>

theorem static_url_not_effect_free:
  "fst (static_url (sample_world [(StrKey ''static_root_url'', ''/static/'')]) ''css/site.css'')
     = Inr ''/static/css/site.css''
   \<and> warnings (snd (static_url (sample_world [(StrKey ''static_root_url'', ''/static/'')]) ''css/site.css''))
     \<noteq> warnings (sample_world [(StrKey ''static_root_url'', ''/static/'')])
   \<and> snd (static_url (sample_world [(StrKey ''static_root_url'', ''/static/'')]) ''css/site.css'')
     \<noteq> sample_world [(StrKey ''static_root_url'', ''/static/'')]"
  by (simp add: static_url_def sample_world_def sample_app_def static_root_key_def
      join_static_def py_rstrip_def py_lstrip_def)

text \<open>
  \<^bold>\<open>Claim C8, amended.\<close> \<^verbatim>\<open>url_for\<close> leaves the whole state as it was.
  \<^verbatim>\<open>static_url\<close> leaves the context, with its application and every configuration entry,
  as it was; its only effect is one \<^verbatim>\<open>DeprecationWarning\<close>, issued exactly on the legacy
  branch. The result of either helper depends on the state through the context only: two
  states with the same context give the same result for the same arguments, whatever
  warnings were issued before, and \<^verbatim>\<open>static_url\<close> run a second time in the state the first
  run left gives the same result again.
\<close>

theorem helpers_effects:
  "snd (url_for with_query w route_name query parts) = w
   \<and> ctx (snd (static_url w p)) = ctx w
   \<and> warnings (snd (static_url w p)) =
       warnings w @ (if legacy_path w then [DeprecationWarning deprecated_msg] else [])
   \<and> (ctx w' = ctx w \<longrightarrow>
        fst (url_for with_query w' route_name query parts) =
          fst (url_for with_query w route_name query parts)
      \<and> fst (static_url w' p) = fst (static_url w p))
   \<and> fst (static_url (snd (static_url w p)) p) = fst (static_url w p)"
proof -
  have again: "fst (static_url (snd (static_url w p)) p) = fst (static_url w p)"
    by (rule static_url_reads_ctx [OF static_url_ctx])
  have reads: "ctx w' = ctx w \<longrightarrow>
        fst (url_for with_query w' route_name query parts) =
          fst (url_for with_query w route_name query parts)
      \<and> fst (static_url w' p) = fst (static_url w p)"
    using url_for_reads_ctx [of w' w with_query route_name query parts]
      static_url_reads_ctx [of w' w p] by simp
  show ?thesis
    apply (intro conjI)
        apply (rule url_for_world)
       apply (rule static_url_ctx)
      apply (rule static_url_warnings)
     apply (rule reads)
    apply (rule again)
    done
qed

theorem helpers_effects_witness:
  "ctx (snd (static_url (sample_world [(StrKey ''static_root_url'', ''/static/'')]) ''css/site.css''))
     = ctx (sample_world [(StrKey ''static_root_url'', ''/static/'')])
   \<and> legacy_path (sample_world [(StrKey ''static_root_url'', ''/static/'')])
   \<and> warnings (snd (static_url (sample_world [(StrKey ''static_root_url'', ''/static/'')]) ''css/site.css''))
     = [DeprecationWarning deprecated_msg]
   \<and> fst (static_url (snd (static_url (sample_world [(StrKey ''static_root_url'', ''/static/'')])
                             ''css/site.css'')) ''css/site.css'')
     = fst (static_url (sample_world [(StrKey ''static_root_url'', ''/static/'')]) ''css/site.css'')
   \<and> fst (url_for sample_with_query
            (snd (static_url (sample_world [(StrKey ''static_root_url'', ''/static/'')]) ''css/site.css''))
            ''item'' None sample_parts)
     = fst (url_for sample_with_query (sample_world [(StrKey ''static_root_url'', ''/static/'')])
            ''item'' None sample_parts)"
proof -
  let ?w = "sample_world [(StrKey ''static_root_url'', ''/static/'')]"
  let ?w' = "snd (static_url ?w ''css/site.css'')"
  note t = helpers_effects [where w = ?w and w' = ?w' and p = "''css/site.css''"
      and with_query = sample_with_query and route_name = "''item''" and query = None
      and parts = sample_parts]
  have c: "ctx ?w' = ctx ?w"
    by (rule t [THEN conjunct2, THEN conjunct1])
  have l: "legacy_path ?w"
    by (simp add: legacy_path_def sample_world_def sample_app_def static_root_key_def)
  have e: "warnings ?w = []"
    by (simp add: sample_world_def)
  from t [THEN conjunct2, THEN conjunct2, THEN conjunct1] l e
  have ws: "warnings ?w' = [DeprecationWarning deprecated_msg]"
    by simp
  note reads = mp [OF t [THEN conjunct2, THEN conjunct2, THEN conjunct2, THEN conjunct1] c]
  have again: "fst (static_url ?w' ''css/site.css'') = fst (static_url ?w ''css/site.css'')"
    by (rule reads [THEN conjunct2])
  have u: "fst (url_for sample_with_query ?w' ''item'' None sample_parts)
           = fst (url_for sample_with_query ?w ''item'' None sample_parts)"
    by (rule reads [THEN conjunct1])
  show ?thesis
    by (rule conjI [OF c conjI [OF l conjI [OF ws conjI [OF again u]]]])
qed

end
